theory Spec2Isabelle
  imports Complex_Main "HOL-Library.Multiset" "HOL-Library.Sublist"
begin

section \<open>The benchmark script \<^verbatim>\<open>benchmark.py\<close>\<close>

text \<open>
  A shallow embedding of \<^verbatim>\<open>src/benchmark.py\<close>. Python floats are modelled as exact
  reals (no binary rounding error), Python integers as \<open>int\<close>, strings as \<open>string\<close> with
  one \<open>char\<close> per character. Exceptions are values of the type \<open>error\<close>.
\<close>

subsection \<open>Errors\<close>

datatype error =
    StatisticsError        \<comment> \<open>\<^verbatim>\<open>statistics.mean\<close> / \<^verbatim>\<open>statistics.median\<close> on an empty list\<close>
  | ZeroDivisionError      \<comment> \<open>float division by zero\<close>
  | IndexError             \<comment> \<open>list index out of range\<close>
  | ThunkError string      \<comment> \<open>any exception raised by a caller-supplied callback\<close>

subsection \<open>Builtins and standard library functions the script calls\<close>

text \<open>
  Python's \<^verbatim>\<open>round(x)\<close> on a float rounds to the nearest integer, a tie going to the even
  neighbour.
\<close>

definition py_round :: "real \<Rightarrow> int" where
  "py_round x =
     (let f = \<lfloor>x\<rfloor>; d = x - of_int f
      in if d < 1 / 2 then f
         else if 1 / 2 < d then f + 1
         else if even f then f else f + 1)"

text \<open>\<^verbatim>\<open>round(x, ndigits)\<close> for \<^verbatim>\<open>ndigits >= 0\<close>: the same rounding at the given decimal place; the result is a float.\<close>

definition py_round_ndigits :: "real \<Rightarrow> nat \<Rightarrow> real" where
  "py_round_ndigits x ndigits = of_int (py_round (x * 10 ^ ndigits)) / 10 ^ ndigits"

text \<open>\<^verbatim>\<open>int(x)\<close> on a float truncates towards zero.\<close>

definition py_int :: "real \<Rightarrow> int" where
  "py_int x = (if 0 \<le> x then \<lfloor>x\<rfloor> else \<lceil>x\<rceil>)"

text \<open>\<^verbatim>\<open>statistics.mean\<close>: raises on an empty list, else the sum over the length.\<close>

definition mean :: "real list \<Rightarrow> error + real" where
  "mean data =
     (let n = length data
      in if n < 1 then Inl StatisticsError
         else Inr (sum_list data / of_nat n))"

text \<open>
  \<^verbatim>\<open>statistics.median\<close>: sorts a copy, raises on an empty list, returns the middle element
  for an odd length and the average of the two middle elements for an even one.
\<close>

definition median :: "real list \<Rightarrow> error + real" where
  "median data0 =
     (let data = sort data0; n = length data
      in if n = 0 then Inl StatisticsError
         else if n mod 2 = 1 then Inr (data ! (n div 2))
         else (let i = n div 2 in Inr ((data ! (i - 1) + data ! i) / 2)))"

text \<open>The decimal rendering of an integer, as \<^verbatim>\<open>f"{n}"\<close> gives it.\<close>

function str_nat :: "nat \<Rightarrow> string" where
  "str_nat n =
     (if n < 10 then [''0123456789'' ! n]
      else str_nat (n div 10) @ [''0123456789'' ! (n mod 10)])"
  by pat_completeness auto
termination
  by (relation "measure (\<lambda>n. n)") auto

declare str_nat.simps [simp del]

definition str_int :: "int \<Rightarrow> string" where
  "str_int i = (if i < 0 then CHR ''-'' # str_nat (nat (- i)) else str_nat (nat i))"

subsection \<open>\<^verbatim>\<open>time_string\<close>\<close>

definition time_string :: "int \<Rightarrow> string" where
  "time_string seconds =
     (if seconds > 3600 then str_int \<lceil>real_of_int seconds / 3600\<rceil> @ '' hours''
      else if seconds > 60 then str_int \<lceil>real_of_int seconds / 60\<rceil> @ '' minutes''
      else str_int seconds @ '' seconds'')"

subsection \<open>\<^verbatim>\<open>time\<close> and \<^verbatim>\<open>improvement\<close>\<close>

text \<open>
  A callback (\<^verbatim>\<open>thunk\<close>) acts on the outside world \<open>'w\<close> (file system, processes) and may
  raise. \<^verbatim>\<open>perf_counter\<close> reads the clock of the world.
\<close>

type_synonym 'w thunk = "'w \<Rightarrow> error + 'w"

definition time :: "('w \<Rightarrow> real) \<Rightarrow> 'w thunk \<Rightarrow> 'w \<Rightarrow> error + (real \<times> 'w)" where
  "time perf_counter thunk w =
     (let start = perf_counter w
      in case thunk w of
           Inl e \<Rightarrow> Inl e
         | Inr w' \<Rightarrow> (let stop = perf_counter w' in Inr (py_round_ndigits (stop - start) 3, w')))"

definition improvement :: "real \<Rightarrow> real \<Rightarrow> error + real" where
  "improvement base better =
     (if base = 0 then Inl ZeroDivisionError else Inr (100 * ((base - better) / base)))"

subsection \<open>\<^verbatim>\<open>print_results\<close>\<close>

text \<open>
  A report line \<^verbatim>\<open>(key, value, fill)\<close>: the value is \<^verbatim>\<open>None\<close> on a header or separator
  line, the fill is a single character.
\<close>

type_synonym ReportLine = "string \<times> string option \<times> char"

definition pair_to_line :: "int \<Rightarrow> ReportLine \<Rightarrow> string" where
  "pair_to_line full_width kv =
     (case kv of (k, v, fill) \<Rightarrow>
        (case v of
           None \<Rightarrow>
             (let padding_size = \<lceil>real_of_int (full_width - int (length k)) / 2\<rceil>;
                  padding = replicate (nat padding_size) fill
              in padding @ k @ padding)
         | Some val \<Rightarrow>
             (let padding = replicate (nat (full_width - int (length k) - int (length val))) fill
              in k @ padding @ val)))"

definition len_none_is_zero :: "string option \<Rightarrow> int" where
  "len_none_is_zero x = (case x of None \<Rightarrow> 0 | Some s \<Rightarrow> int (length s))"

definition key_len_of_non_none_values :: "ReportLine \<Rightarrow> int" where
  "key_len_of_non_none_values kv =
     (case kv of (k, v, fill) \<Rightarrow> (case v of None \<Rightarrow> 0 | Some val \<Rightarrow> int (length k)))"

text \<open>
  Reading \<^verbatim>\<open>xs[i]\<close>: an index from \<open>0\<close> up to the length reads from the front, an
  index from minus the length up to \<open>-1\<close> reads from the back, any other index raises.
\<close>

definition py_getitem :: "'a list \<Rightarrow> int \<Rightarrow> error + 'a" where
  "py_getitem xs i =
     (if 0 \<le> i \<and> i < int (length xs) then Inr (xs ! nat i)
      else if i < 0 \<and> - int (length xs) \<le> i then Inr (xs ! nat (int (length xs) + i))
      else Inl IndexError)"

definition header_line :: ReportLine where
  "header_line = (''  Benchmark stats  '', None, CHR '':'')"

definition min_separation :: int where
  "min_separation = 6"

definition max_key_width :: "ReportLine list \<Rightarrow> int" where
  "max_key_width kvs = foldl (\<lambda>x y. max x (key_len_of_non_none_values y)) 0 kvs"

definition max_value_width :: "ReportLine list \<Rightarrow> int" where
  "max_value_width kvs = foldl (\<lambda>x y. max x (len_none_is_zero (fst (snd y)))) 0 kvs"

text \<open>The rows \<^verbatim>\<open>print_results\<close> prints, in order.\<close>

definition print_results :: "ReportLine list \<Rightarrow> error + string list" where
  "print_results kvs0 =
     (let kvs = header_line # kvs0;
          lines = map (pair_to_line (min_separation + max_key_width kvs + max_value_width kvs)) kvs;
          line_lengths = map length lines
      in case py_getitem line_lengths (int (length line_lengths) - 2) of
           Inl e \<Rightarrow> Inl e
         | Inr full_width \<Rightarrow> Inr (map (\<lambda>line. take full_width line) lines))"

subsection \<open>\<^verbatim>\<open>get_stat\<close> and \<^verbatim>\<open>gather_output\<close>\<close>

text \<open>
  The text of a float in an f-string (\<^verbatim>\<open>f"{dev}"\<close>) is Python's \<^verbatim>\<open>repr\<close>; it is a
  parameter \<open>fmt\<close> of the model.
\<close>

definition get_stat :: "(real \<Rightarrow> string) \<Rightarrow> string \<Rightarrow> real \<Rightarrow> real \<Rightarrow> error + ReportLine list" where
  "get_stat fmt name dev base =
     (case improvement base dev of
        Inl e \<Rightarrow> Inl e
      | Inr imp \<Rightarrow>
          (let percent = py_round_ndigits imp 2;
               lines = [(name @ '' dev'', Some (fmt dev), CHR ''.''),
                        (name @ '' base'', Some (fmt base), CHR ''.'')]
           in if percent > 0
              then Inr (lines @ [(''IMPROVED BY'', Some (fmt percent @ '' ''), CHR ''.''),
                                 ('''', None, CHR '' '')])
              else Inr (lines @ [(''DEGRADED BY'', Some (fmt \<bar>percent\<bar> @ '' %''), CHR ''.''),
                                 ('''', None, CHR '' '')])))"

record Args =
  cached :: bool
  args_runs :: int
  args_dev :: string
  args_base :: string

text \<open>
  \<^verbatim>\<open>gather_output\<close> receives the two run lists by reference and sorts them in place
  (\<^verbatim>\<open>dev.sort()\<close>), so the lists live in a store and the function returns the store it
  leaves behind.
\<close>

type_synonym addr = nat
type_synonym store = "addr \<Rightarrow> real list"

definition gather_output ::
  "(real \<Rightarrow> string) \<Rightarrow> Args \<Rightarrow> addr \<Rightarrow> addr \<Rightarrow> store \<Rightarrow> (error + ReportLine list) \<times> store" where
  "gather_output fmt args dev base h0 =
     (let h1 = h0(dev := sort (h0 dev));
          h2 = h1(base := sort (h1 base));
          top = [(''command'', Some ''dbt parse'', CHR ''.''),
                 (''dev branch'', Some (''dbt/'' @ args_dev args), CHR ''.''),
                 (''base branch'', Some (''dbt/'' @ args_base args), CHR ''.''),
                 ('''', None, CHR '' ''),
                 (''time measured in seconds'', None, CHR '' ''),
                 ('''', None, CHR '' '')]
      in (case mean (h2 dev) of Inl e \<Rightarrow> Inl e | Inr mean_dev \<Rightarrow>
         (case mean (h2 base) of Inl e \<Rightarrow> Inl e | Inr mean_base \<Rightarrow>
         (case get_stat fmt ''mean'' (py_round_ndigits mean_dev 2) (py_round_ndigits mean_base 2) of
            Inl e \<Rightarrow> Inl e | Inr mean_lines \<Rightarrow>
         (case median (h2 dev) of Inl e \<Rightarrow> Inl e | Inr median_dev \<Rightarrow>
         (case median (h2 base) of Inl e \<Rightarrow> Inl e | Inr median_base \<Rightarrow>
         (case get_stat fmt ''median'' (py_round_ndigits median_dev 2) (py_round_ndigits median_base 2) of
            Inl e \<Rightarrow> Inl e | Inr median_lines \<Rightarrow>
          Inr (top @ mean_lines @ median_lines)))))),
          h2))"

subsection \<open>The class \<^verbatim>\<open>Run\<close> and \<^verbatim>\<open>execute_run\<close>\<close>

record 'w Run =
  name :: string
  path :: string
  run_count :: int
  git_branch :: string
  setup_thunk :: "'w thunk"
  run_thunk :: "'w thunk"
  cleanup_thunk :: "'w thunk"
  time_remaining :: "real list \<Rightarrow> int \<Rightarrow> error + int"
  runs :: "real list"

text \<open>\<^verbatim>\<open>Run.__init__\<close>: the fields as given, and an empty list of runs.\<close>

definition Run_init ::
  "string \<Rightarrow> string \<Rightarrow> int \<Rightarrow> string \<Rightarrow> 'w thunk \<Rightarrow> 'w thunk \<Rightarrow> 'w thunk \<Rightarrow>
   (real list \<Rightarrow> int \<Rightarrow> error + int) \<Rightarrow> 'w Run" where
  "Run_init nm pth cnt gb st rt ct tr =
     \<lparr>name = nm, path = pth, run_count = cnt, git_branch = gb, setup_thunk = st,
      run_thunk = rt, cleanup_thunk = ct, time_remaining = tr, runs = []\<rparr>"

text \<open>
  What \<^verbatim>\<open>execute_run\<close> does that can be observed, in the order it does it: the messages
  it logs (the timestamp \<^verbatim>\<open>log\<close> puts in front is left out), the callbacks it invokes, and
  its assignments to \<^verbatim>\<open>branch.runs\<close>.
\<close>

datatype msg =
    MsgSetup string           \<comment> \<open>\<^verbatim>\<open>running {name} branch setup\<close>\<close>
  | MsgRun string int int     \<comment> \<open>\<^verbatim>\<open>{name} run {len(runs) + 1}/{run_count}\<close>\<close>
  | MsgCompleted real         \<comment> \<open>\<^verbatim>\<open>run completed in {run} seconds\<close>\<close>
  | MsgRemaining string       \<comment> \<open>\<^verbatim>\<open>estimated time remaining: {time_string(remaining)}\<close>\<close>
  | MsgCleanup string         \<comment> \<open>\<^verbatim>\<open>running {name} cleanup\<close>\<close>

datatype callback = SetupThunk | RunThunk | CleanupThunk | TimeRemaining

datatype event =
    Log msg
  | Invoke callback
  | AssignRuns "real list"

record 'w sys =
  branch :: "'w Run"
  world :: 'w
  trace :: "event list"

definition emit :: "event \<Rightarrow> 'w sys \<Rightarrow> 'w sys" where
  "emit e s = s\<lparr>trace := trace s @ [e]\<rparr>"

definition log_msg :: "msg \<Rightarrow> 'w sys \<Rightarrow> 'w sys" where
  "log_msg m s = emit (Log m) s"

definition assign_runs :: "real list \<Rightarrow> 'w sys \<Rightarrow> 'w sys" where
  "assign_runs l s = emit (AssignRuns l) (s\<lparr>branch := (branch s)\<lparr>runs := l\<rparr>\<rparr>)"

text \<open>
  An exception leaves \<^verbatim>\<open>execute_run\<close> with the state reached when it was raised:
  \<open>Inl (e, s)\<close>. A normal return is \<open>Inr s\<close>.
\<close>

type_synonym 'w outcome = "(error \<times> 'w sys) + 'w sys"

definition final :: "'w outcome \<Rightarrow> 'w sys" where
  "final r = (case r of Inl (e, s) \<Rightarrow> s | Inr s \<Rightarrow> s)"

text \<open>The body of the \<^verbatim>\<open>for\<close> loop of \<^verbatim>\<open>execute_run\<close>: one trial.\<close>

definition trial_cycle :: "('w \<Rightarrow> real) \<Rightarrow> 'w thunk \<Rightarrow> 'w sys \<Rightarrow> 'w outcome" where
  "trial_cycle perf_counter thunk s =
     (let b = branch s;
          s1 = log_msg (MsgRun (name b) (int (length (runs b)) + 1) (run_count b)) s;
          s2 = emit (Invoke RunThunk) s1
      in case time perf_counter thunk (world s2) of
           Inl e \<Rightarrow> Inl (e, s2)
         | Inr (run, w) \<Rightarrow>
            (let s3 = assign_runs (runs b @ [run]) (s2\<lparr>world := w\<rparr>);
                 s4 = emit (Invoke TimeRemaining) s3
             in case time_remaining b (runs (branch s3)) (run_count b) of
                  Inl e \<Rightarrow> Inl (e, s4)
                | Inr remaining \<Rightarrow>
                   (let s5 = log_msg (MsgCompleted run) s4;
                        s6 = log_msg (MsgRemaining (time_string remaining)) s5;
                        s7 = log_msg (MsgCleanup (name b)) s6;
                        s8 = emit (Invoke CleanupThunk) s7
                    in case cleanup_thunk b (world s8) of
                         Inl e \<Rightarrow> Inl (e, s8)
                       | Inr w' \<Rightarrow> Inr (s8\<lparr>world := w'\<rparr>))))"

text \<open>The loop over \<^verbatim>\<open>[branch.run_thunk] * branch.run_count\<close>: as many trials as the list is long.\<close>

fun run_trials :: "('w \<Rightarrow> real) \<Rightarrow> 'w thunk \<Rightarrow> nat \<Rightarrow> 'w sys \<Rightarrow> 'w outcome" where
  "run_trials perf_counter thunk 0 s = Inr s"
| "run_trials perf_counter thunk (Suc k) s =
     (case trial_cycle perf_counter thunk s of
        Inl err \<Rightarrow> Inl err
      | Inr s' \<Rightarrow> run_trials perf_counter thunk k s')"

definition execute_run :: "('w \<Rightarrow> real) \<Rightarrow> 'w sys \<Rightarrow> 'w outcome" where
  "execute_run perf_counter s0 =
     (let b = branch s0;
          s1 = log_msg (MsgSetup (name b)) s0;
          s2 = emit (Invoke SetupThunk) s1
      in case setup_thunk b (world s2) of
           Inl e \<Rightarrow> Inl (e, s2)
         | Inr w \<Rightarrow>
            (let s3 = s2\<lparr>world := w\<rparr>
             in if run_count b < 1
                then Inr (assign_runs (replicate 10 1) (assign_runs (replicate 10 1) s3))
                else run_trials perf_counter (run_thunk b) (nat (run_count b)) s3))"

subsection \<open>The two estimators and the end of \<^verbatim>\<open>main\<close>\<close>

text \<open>The \<^verbatim>\<open>time_remaining\<close> lambda of the dev branch in \<^verbatim>\<open>main\<close>.\<close>

definition time_remaining_dev :: "real list \<Rightarrow> int \<Rightarrow> error + int" where
  "time_remaining_dev l n =
     (case mean l of
        Inl e \<Rightarrow> Inl e
      | Inr m \<Rightarrow> Inr (py_int (py_round_ndigits (m * of_int ((2 * n) - int (length l))) 0)))"


text \<open>
  The last lines of \<^verbatim>\<open>main\<close>, after both branches have run: the report is printed from
  \<^verbatim>\<open>dev.runs\<close> and \<^verbatim>\<open>base.runs\<close>, passed by reference, and then the two lists are
  printed. The result is the rows of the report and the two lists as printed.
\<close>

definition main_report ::
  "(real \<Rightarrow> string) \<Rightarrow> Args \<Rightarrow> 'w Run \<Rightarrow> 'w Run \<Rightarrow> error + (string list \<times> real list \<times> real list)" where
  "main_report fmt args dev base =
     (let dev_runs = (0 :: addr); base_runs = (1 :: addr);
          h0 = (\<lambda>a. [])(dev_runs := runs dev, base_runs := runs base)
      in case gather_output fmt args dev_runs base_runs h0 of
           (Inl e, h) \<Rightarrow> Inl e
         | (Inr kvs, h) \<Rightarrow>
            (case print_results kvs of
               Inl e \<Rightarrow> Inl e
             | Inr rows \<Rightarrow> Inr (rows, h dev_runs, h base_runs)))"

subsection \<open>Notions the properties are stated with\<close>

text \<open>
  \<open>occurs_before a b tr\<close>: the event \<open>a\<close> occurs in \<open>tr\<close>, and \<open>b\<close> occurs after the
  first \<open>a\<close>.
\<close>

definition occurs_before :: "event \<Rightarrow> event \<Rightarrow> event list \<Rightarrow> bool" where
  "occurs_before a b tr \<longleftrightarrow> a \<in> set tr \<and> b \<in> set (tl (dropWhile (\<lambda>e. e \<noteq> a) tr))"



text \<open>
  The width the report is laid out for, and its rows as \<^verbatim>\<open>print_results\<close> renders
  them before it cuts them to a common length (the header line comes first).
\<close>

definition report_width :: "ReportLine list \<Rightarrow> int" where
  "report_width kvs =
     min_separation + max_key_width (header_line # kvs) + max_value_width (header_line # kvs)"

definition rendered_rows :: "ReportLine list \<Rightarrow> string list" where
  "rendered_rows kvs = map (pair_to_line (report_width kvs)) (header_line # kvs)"

text \<open>
  A branch to run the definitions on: the world is the reading of the clock, the setup and
  cleanup callbacks do nothing, a trial takes two seconds, and the estimator is the one of
  the dev branch.
\<close>

definition example_branch :: "int \<Rightarrow> real Run" where
  "example_branch n =
     Run_init ''dev'' ''./target/dev'' n ''feature''
       (\<lambda>w. Inr w) (\<lambda>w. Inr (w + 2)) (\<lambda>w. Inr w) time_remaining_dev"

definition example_sys :: "int \<Rightarrow> real sys" where
  "example_sys n = \<lparr>branch = example_branch n, world = 0, trace = []\<rparr>"

section \<open>Properties\<close>

subsection \<open>Rounding\<close>





subsection \<open>The display of the remaining time\<close>

lemma ceil_bounds:
  assumes c: "0 < (c::int)"
  shows "N \<le> c * \<lceil>real_of_int N / real_of_int c\<rceil> \<and> c * \<lceil>real_of_int N / real_of_int c\<rceil> < N + c"
proof -
  define q where "q = \<lceil>real_of_int N / real_of_int c\<rceil>"
  have cr: "0 < real_of_int c" using c by simp
  have "real_of_int N / real_of_int c \<le> of_int q" "of_int q - 1 < real_of_int N / real_of_int c"
    unfolding q_def using ceiling_correct [of "real_of_int N / real_of_int c"] by simp_all
  then have "real_of_int N \<le> of_int q * real_of_int c" "(of_int q - 1) * real_of_int c < real_of_int N"
    using cr by (simp_all only: pos_divide_le_eq pos_less_divide_eq)
  then have "real_of_int N \<le> real_of_int (c * q)" "real_of_int (c * q) < real_of_int (N + c)"
    by (simp_all add: algebra_simps)
  then have "N \<le> c * q" "c * q < N + c"
    by (simp_all only: of_int_le_iff of_int_less_iff)
  then show ?thesis by (simp add: q_def)
qed


subsection \<open>Running a branch\<close>

lemma execute_run_dry:
  assumes "run_count (branch s) < 1"
  shows "execute_run pc s =
     (case setup_thunk (branch s) (world s) of
        Inl e \<Rightarrow> Inl (e, s\<lparr>trace := trace s @ [Log (MsgSetup (name (branch s))), Invoke SetupThunk]\<rparr>)
      | Inr w \<Rightarrow> Inr (s\<lparr>branch := (branch s)\<lparr>runs := replicate 10 1\<rparr>, world := w,
                       trace := trace s @ [Log (MsgSetup (name (branch s))), Invoke SetupThunk,
                                           AssignRuns (replicate 10 1), AssignRuns (replicate 10 1)]\<rparr>))"
  using assms
  by (simp add: execute_run_def Let_def log_msg_def emit_def assign_runs_def split: sum.splits)

lemma trial_cycle_ok:
  assumes "time pc th (world s) = Inr (d, w)"
    and "time_remaining (branch s) (runs (branch s) @ [d]) (run_count (branch s)) = Inr r"
    and "cleanup_thunk (branch s) w = Inr w'"
  shows "trial_cycle pc th s =
     Inr (s\<lparr>branch := (branch s)\<lparr>runs := runs (branch s) @ [d]\<rparr>, world := w',
            trace := trace s @
              [Log (MsgRun (name (branch s)) (int (length (runs (branch s))) + 1) (run_count (branch s))),
               Invoke RunThunk,
               AssignRuns (runs (branch s) @ [d]),
               Invoke TimeRemaining,
               Log (MsgCompleted d),
               Log (MsgRemaining (time_string r)),
               Log (MsgCleanup (name (branch s))),
               Invoke CleanupThunk]\<rparr>)"
  using assms
  by (simp add: trial_cycle_def Let_def log_msg_def emit_def assign_runs_def)

lemma trial_cycle_inv:
  "\<exists>ds new. length ds \<le> 1
      \<and> branch (final (trial_cycle pc th s)) = (branch s)\<lparr>runs := runs (branch s) @ ds\<rparr>
      \<and> trace (final (trial_cycle pc th s)) = trace s @ new
      \<and> (\<forall>l. AssignRuns l \<in> set new \<longrightarrow> l = runs (branch s) @ ds)
      \<and> (\<forall>s'. trial_cycle pc th s = Inr s' \<longrightarrow> length ds = 1)"
proof (cases "time pc th (world s)")
  case (Inl e)
  then show ?thesis
    by (intro exI [of _ "[]"] exI [of _ "[Log (MsgRun (name (branch s)) (int (length (runs (branch s))) + 1) (run_count (branch s))), Invoke RunThunk]"])
       (simp add: trial_cycle_def Let_def log_msg_def emit_def final_def)
next
  case (Inr p)
  obtain d w where p: "p = (d, w)" by (cases p)
  show ?thesis
  proof (cases "time_remaining (branch s) (runs (branch s) @ [d]) (run_count (branch s))")
    case (Inl e)
    with Inr p show ?thesis
      by (intro exI [of _ "[d]"] exI [of _ "[Log (MsgRun (name (branch s)) (int (length (runs (branch s))) + 1) (run_count (branch s))), Invoke RunThunk, AssignRuns (runs (branch s) @ [d]), Invoke TimeRemaining]"])
         (simp add: trial_cycle_def Let_def log_msg_def emit_def assign_runs_def final_def)
  next
    case r: (Inr r)
    show ?thesis
    proof (cases "cleanup_thunk (branch s) w")
      case (Inl e)
      with Inr p r show ?thesis
        by (intro exI [of _ "[d]"] exI [of _ "[Log (MsgRun (name (branch s)) (int (length (runs (branch s))) + 1) (run_count (branch s))), Invoke RunThunk, AssignRuns (runs (branch s) @ [d]), Invoke TimeRemaining, Log (MsgCompleted d), Log (MsgRemaining (time_string r)), Log (MsgCleanup (name (branch s))), Invoke CleanupThunk]"])
           (simp add: trial_cycle_def Let_def log_msg_def emit_def assign_runs_def final_def)
    next
      case c: (Inr w')
      from Inr p r c have "trial_cycle pc th s = Inr (s\<lparr>branch := (branch s)\<lparr>runs := runs (branch s) @ [d]\<rparr>, world := w',
            trace := trace s @
              [Log (MsgRun (name (branch s)) (int (length (runs (branch s))) + 1) (run_count (branch s))),
               Invoke RunThunk,
               AssignRuns (runs (branch s) @ [d]),
               Invoke TimeRemaining,
               Log (MsgCompleted d),
               Log (MsgRemaining (time_string r)),
               Log (MsgCleanup (name (branch s))),
               Invoke CleanupThunk]\<rparr>)"
        by (intro trial_cycle_ok) simp_all
      then show ?thesis
        by (intro exI [of _ "[d]"] exI [of _ "[Log (MsgRun (name (branch s)) (int (length (runs (branch s))) + 1) (run_count (branch s))), Invoke RunThunk, AssignRuns (runs (branch s) @ [d]), Invoke TimeRemaining, Log (MsgCompleted d), Log (MsgRemaining (time_string r)), Log (MsgCleanup (name (branch s))), Invoke CleanupThunk]"])
           (simp add: final_def)
    qed
  qed
qed

lemma run_trials_inv:
  "\<exists>ds new. length ds \<le> k
      \<and> branch (final (run_trials pc th k s)) = (branch s)\<lparr>runs := runs (branch s) @ ds\<rparr>
      \<and> trace (final (run_trials pc th k s)) = trace s @ new
      \<and> (\<forall>l. AssignRuns l \<in> set new \<longrightarrow> (\<exists>ds'. l = runs (branch s) @ ds' \<and> length ds' \<le> k))
      \<and> (\<forall>s'. run_trials pc th k s = Inr s' \<longrightarrow> length ds = k)"
proof (induction k arbitrary: s)
  case 0
  show ?case
    by (intro exI [of _ "[]"]) (simp add: final_def)
next
  case (Suc k)
  obtain ds new where c: "length ds \<le> 1"
      "branch (final (trial_cycle pc th s)) = (branch s)\<lparr>runs := runs (branch s) @ ds\<rparr>"
      "trace (final (trial_cycle pc th s)) = trace s @ new"
      "\<forall>l. AssignRuns l \<in> set new \<longrightarrow> l = runs (branch s) @ ds"
      "\<forall>s'. trial_cycle pc th s = Inr s' \<longrightarrow> length ds = 1"
    using trial_cycle_inv [of pc th s] by blast
  show ?case
  proof (cases "trial_cycle pc th s")
    case (Inl err)
    then have f: "final (run_trials pc th (Suc k) s) = final (trial_cycle pc th s)"
      by simp
    have "run_trials pc th (Suc k) s = Inl err" using Inl by simp
    with c f show ?thesis
      by (intro exI [of _ ds] exI [of _ new]) auto
  next
    case (Inr s')
    then have s': "final (trial_cycle pc th s) = s'" by (simp add: final_def)
    from Inr c have l1: "length ds = 1" by blast
    obtain ds2 new2 where i: "length ds2 \<le> k"
      "branch (final (run_trials pc th k s')) = (branch s')\<lparr>runs := runs (branch s') @ ds2\<rparr>"
      "trace (final (run_trials pc th k s')) = trace s' @ new2"
      "\<forall>l. AssignRuns l \<in> set new2 \<longrightarrow> (\<exists>ds'. l = runs (branch s') @ ds' \<and> length ds' \<le> k)"
      "\<forall>s''. run_trials pc th k s' = Inr s'' \<longrightarrow> length ds2 = k"
      using Suc.IH [of s'] by blast
    have r: "run_trials pc th (Suc k) s = run_trials pc th k s'" using Inr by simp
    have b: "branch s' = (branch s)\<lparr>runs := runs (branch s) @ ds\<rparr>" using c s' by simp
    have t: "trace s' = trace s @ new" using c s' by simp
    have a: "\<forall>l. AssignRuns l \<in> set (new @ new2) \<longrightarrow> (\<exists>ds'. l = runs (branch s) @ ds' \<and> length ds' \<le> Suc k)"
    proof (intro allI impI)
      fix l assume "AssignRuns l \<in> set (new @ new2)"
      then consider "AssignRuns l \<in> set new" | "AssignRuns l \<in> set new2" by auto
      then show "\<exists>ds'. l = runs (branch s) @ ds' \<and> length ds' \<le> Suc k"
      proof cases
        case 1
        with c l1 show ?thesis by (intro exI [of _ ds]) simp
      next
        case 2
        with i obtain ds' where "l = runs (branch s') @ ds'" "length ds' \<le> k" by blast
        with b l1 show ?thesis by (intro exI [of _ "ds @ ds'"]) simp
      qed
    qed
    show ?thesis
      unfolding r
      using i b t l1 a
      by (intro exI [of _ "ds @ ds2"] exI [of _ "new @ new2"]) auto
  qed
qed

lemma execute_run_real:
  assumes "1 \<le> run_count (branch s)"
  shows "execute_run pc s =
     (case setup_thunk (branch s) (world s) of
        Inl e \<Rightarrow> Inl (e, s\<lparr>trace := trace s @ [Log (MsgSetup (name (branch s))), Invoke SetupThunk]\<rparr>)
      | Inr w \<Rightarrow> run_trials pc (run_thunk (branch s)) (nat (run_count (branch s)))
                  (s\<lparr>trace := trace s @ [Log (MsgSetup (name (branch s))), Invoke SetupThunk], world := w\<rparr>))"
  using assms
  by (simp add: execute_run_def Let_def log_msg_def emit_def split: sum.splits)

lemma execute_run_inv:
  assumes "1 \<le> run_count (branch s)"
  shows "\<exists>ds new. length ds \<le> nat (run_count (branch s))
      \<and> branch (final (execute_run pc s)) = (branch s)\<lparr>runs := runs (branch s) @ ds\<rparr>
      \<and> trace (final (execute_run pc s)) = trace s @ new
      \<and> (\<forall>l. AssignRuns l \<in> set new \<longrightarrow>
            (\<exists>ds'. l = runs (branch s) @ ds' \<and> length ds' \<le> nat (run_count (branch s))))
      \<and> (\<forall>s'. execute_run pc s = Inr s' \<longrightarrow> length ds = nat (run_count (branch s)))"
proof (cases "setup_thunk (branch s) (world s)")
  case (Inl e)
  then show ?thesis
    unfolding execute_run_real [OF assms]
    by (intro exI [of _ "[]"] exI [of _ "[Log (MsgSetup (name (branch s))), Invoke SetupThunk]"])
       (simp add: final_def)
next
  case (Inr w)
  define s2 where "s2 = s\<lparr>trace := trace s @ [Log (MsgSetup (name (branch s))), Invoke SetupThunk], world := w\<rparr>"
  define k where "k = nat (run_count (branch s))"
  have e: "execute_run pc s = run_trials pc (run_thunk (branch s)) k s2"
    unfolding execute_run_real [OF assms] s2_def k_def using Inr by simp
  obtain ds new where i: "length ds \<le> k"
      "branch (final (run_trials pc (run_thunk (branch s)) k s2)) = (branch s2)\<lparr>runs := runs (branch s2) @ ds\<rparr>"
      "trace (final (run_trials pc (run_thunk (branch s)) k s2)) = trace s2 @ new"
      "\<forall>l. AssignRuns l \<in> set new \<longrightarrow> (\<exists>ds'. l = runs (branch s2) @ ds' \<and> length ds' \<le> k)"
      "\<forall>s'. run_trials pc (run_thunk (branch s)) k s2 = Inr s' \<longrightarrow> length ds = k"
    using run_trials_inv [of k pc "run_thunk (branch s)" s2] by blast
  have b: "branch s2 = branch s" by (simp add: s2_def)
  have t: "trace s2 = trace s @ [Log (MsgSetup (name (branch s))), Invoke SetupThunk]" by (simp add: s2_def)
  show ?thesis
    unfolding e k_def [symmetric]
    using i b t
    by (intro exI [of _ ds] exI [of _ "[Log (MsgSetup (name (branch s))), Invoke SetupThunk] @ new"]) auto
qed

lemma example_run_2:
  "execute_run (\<lambda>w. w) (example_sys 2) =
     Inr \<lparr>branch = (example_branch 2)\<lparr>runs := [2, 2]\<rparr>, world = 4,
          trace = [Log (MsgSetup ''dev''), Invoke SetupThunk,
                   Log (MsgRun ''dev'' 1 2), Invoke RunThunk, AssignRuns [2], Invoke TimeRemaining,
                   Log (MsgCompleted 2), Log (MsgRemaining ''6 seconds''), Log (MsgCleanup ''dev''),
                   Invoke CleanupThunk,
                   Log (MsgRun ''dev'' 2 2), Invoke RunThunk, AssignRuns [2, 2], Invoke TimeRemaining,
                   Log (MsgCompleted 2), Log (MsgRemaining ''4 seconds''), Log (MsgCleanup ''dev''),
                   Invoke CleanupThunk]\<rparr>"
  by (simp add: execute_run_def example_sys_def example_branch_def Run_init_def Let_def
      log_msg_def emit_def assign_runs_def numeral_2_eq_2 trial_cycle_def time_def
      time_remaining_dev_def mean_def py_round_ndigits_def py_round_def py_int_def
      time_string_def str_int_def str_nat.simps)

lemma example_run_1:
  "execute_run (\<lambda>w. w) (example_sys 1) =
     Inr \<lparr>branch = (example_branch 1)\<lparr>runs := [2]\<rparr>, world = 2,
          trace = [Log (MsgSetup ''dev''), Invoke SetupThunk,
                   Log (MsgRun ''dev'' 1 1), Invoke RunThunk, AssignRuns [2], Invoke TimeRemaining,
                   Log (MsgCompleted 2), Log (MsgRemaining ''2 seconds''), Log (MsgCleanup ''dev''),
                   Invoke CleanupThunk]\<rparr>"
  by (simp add: execute_run_def example_sys_def example_branch_def Run_init_def Let_def
      log_msg_def emit_def assign_runs_def trial_cycle_def time_def
      time_remaining_dev_def mean_def py_round_ndigits_def py_round_def py_int_def
      time_string_def str_int_def str_nat.simps)

lemma example_run_0:
  "execute_run (\<lambda>w. w) (example_sys 0) =
     Inr \<lparr>branch = (example_branch 0)\<lparr>runs := [1, 1, 1, 1, 1, 1, 1, 1, 1, 1]\<rparr>, world = 0,
          trace = [Log (MsgSetup ''dev''), Invoke SetupThunk,
                   AssignRuns [1, 1, 1, 1, 1, 1, 1, 1, 1, 1],
                   AssignRuns [1, 1, 1, 1, 1, 1, 1, 1, 1, 1]]\<rparr>"
  by (simp add: execute_run_def example_sys_def example_branch_def Run_init_def Let_def
      log_msg_def emit_def assign_runs_def numeral_eq_Suc)



text \<open>
  C10. When the planned count is below 1, running the branch logs the setup message and
  invokes the setup callback, once; if the callback returns, the ten-entry history is then
  assigned (the source has the assignment twice). The cleanup callback is not invoked, and
  no assignment to the history precedes the setup callback.
\<close>

theorem dry_run_setup_once:
  assumes "run_count (branch s) < 1"
  shows "drop (length (trace s)) (trace (final (execute_run pc s))) =
           (case setup_thunk (branch s) (world s) of
              Inl e \<Rightarrow> [Log (MsgSetup (name (branch s))), Invoke SetupThunk]
            | Inr w \<Rightarrow> [Log (MsgSetup (name (branch s))), Invoke SetupThunk,
                        AssignRuns (replicate 10 1), AssignRuns (replicate 10 1)])
       \<and> count_list (drop (length (trace s)) (trace (final (execute_run pc s)))) (Invoke SetupThunk) = 1
       \<and> count_list (drop (length (trace s)) (trace (final (execute_run pc s)))) (Invoke CleanupThunk) = 0
       \<and> (\<forall>l. \<not> occurs_before (AssignRuns l) (Invoke SetupThunk)
                   (drop (length (trace s)) (trace (final (execute_run pc s)))))"
  using execute_run_dry [OF assms, of pc]
  by (auto simp: final_def occurs_before_def split: sum.splits)

theorem dry_run_setup_once_witness:
  "run_count (branch (example_sys 0)) < 1
   \<and> drop (length (trace (example_sys 0))) (trace (final (execute_run (\<lambda>w. w) (example_sys 0))))
       = [Log (MsgSetup ''dev''), Invoke SetupThunk,
          AssignRuns [1, 1, 1, 1, 1, 1, 1, 1, 1, 1], AssignRuns [1, 1, 1, 1, 1, 1, 1, 1, 1, 1]]
   \<and> count_list (drop (length (trace (example_sys 0)))
                   (trace (final (execute_run (\<lambda>w. w) (example_sys 0))))) (Invoke SetupThunk) = 1
   \<and> count_list (drop (length (trace (example_sys 0)))
                   (trace (final (execute_run (\<lambda>w. w) (example_sys 0))))) (Invoke CleanupThunk) = 0"
proof -
  have h: "run_count (branch (example_sys 0)) < 1"
    by (simp add: example_sys_def example_branch_def Run_init_def)
  have t: "drop (length (trace (example_sys 0))) (trace (final (execute_run (\<lambda>w. w) (example_sys 0))))
       = [Log (MsgSetup ''dev''), Invoke SetupThunk,
          AssignRuns [1, 1, 1, 1, 1, 1, 1, 1, 1, 1], AssignRuns [1, 1, 1, 1, 1, 1, 1, 1, 1, 1]]"
    by (simp add: example_run_0 final_def) (simp add: example_sys_def)
  from dry_run_setup_once [OF h, of "\<lambda>w. w"] have
    "count_list (drop (length (trace (example_sys 0)))
                   (trace (final (execute_run (\<lambda>w. w) (example_sys 0))))) (Invoke SetupThunk) = 1"
    "count_list (drop (length (trace (example_sys 0)))
                   (trace (final (execute_run (\<lambda>w. w) (example_sys 0))))) (Invoke CleanupThunk) = 0"
    by blast+
  with h t show ?thesis by blast
qed

text \<open>
  C2, as the code has it. On a branch with a planned count of at least 1 and an empty
  history (as \<^verbatim>\<open>Run.__init__\<close> leaves it), the history never has more entries than the
  planned count: not in the state \<^verbatim>\<open>execute_run\<close> ends in, by return or by exception,
  and not at any assignment to the history on the way. When \<^verbatim>\<open>execute_run\<close> returns, the
  history has exactly as many entries as planned.
\<close>

theorem history_within_planned_count:
  assumes "1 \<le> run_count (branch s)" and "runs (branch s) = []"
  shows "int (length (runs (branch (final (execute_run pc s))))) \<le> run_count (branch s)
       \<and> (\<forall>l. AssignRuns l \<in> set (drop (length (trace s)) (trace (final (execute_run pc s))))
              \<longrightarrow> int (length l) \<le> run_count (branch s))
       \<and> (\<forall>s'. execute_run pc s = Inr s' \<longrightarrow> int (length (runs (branch s'))) = run_count (branch s))"
proof -
  obtain ds new where i: "length ds \<le> nat (run_count (branch s))"
      "branch (final (execute_run pc s)) = (branch s)\<lparr>runs := runs (branch s) @ ds\<rparr>"
      "trace (final (execute_run pc s)) = trace s @ new"
      "\<forall>l. AssignRuns l \<in> set new \<longrightarrow>
            (\<exists>ds'. l = runs (branch s) @ ds' \<and> length ds' \<le> nat (run_count (branch s)))"
      "\<forall>s'. execute_run pc s = Inr s' \<longrightarrow> length ds = nat (run_count (branch s))"
    using execute_run_inv [OF assms(1), of pc] by blast
  have 1: "int (length (runs (branch (final (execute_run pc s))))) \<le> run_count (branch s)"
    using i(1,2) assms by simp
  have 2: "\<forall>l. AssignRuns l \<in> set (drop (length (trace s)) (trace (final (execute_run pc s))))
              \<longrightarrow> int (length l) \<le> run_count (branch s)"
    using i(3,4) assms by auto
  have 3: "\<forall>s'. execute_run pc s = Inr s' \<longrightarrow> int (length (runs (branch s'))) = run_count (branch s)"
  proof (intro allI impI)
    fix s' assume r: "execute_run pc s = Inr s'"
    then have "final (execute_run pc s) = s'" by (simp add: final_def)
    with i(2) i(5) r assms show "int (length (runs (branch s'))) = run_count (branch s)" by auto
  qed
  from 1 2 3 show ?thesis by blast
qed

theorem history_within_planned_count_witness:
  "1 \<le> run_count (branch (example_sys 2)) \<and> runs (branch (example_sys 2)) = []
   \<and> int (length (runs (branch (final (execute_run (\<lambda>w. w) (example_sys 2))))))
       \<le> run_count (branch (example_sys 2))
   \<and> runs (branch (final (execute_run (\<lambda>w. w) (example_sys 2)))) = [2, 2]"
proof -
  have h1: "1 \<le> run_count (branch (example_sys 2))"
    by (simp add: example_sys_def example_branch_def Run_init_def)
  have h2: "runs (branch (example_sys 2)) = []"
    by (simp add: example_sys_def example_branch_def Run_init_def)
  have r: "runs (branch (final (execute_run (\<lambda>w. w) (example_sys 2)))) = [2, 2]"
    by (simp add: example_run_2 final_def)
  from history_within_planned_count [OF h1 h2, of "\<lambda>w. w"] h1 h2 r show ?thesis
    by blast
qed

text \<open>
  The claim as stated fails in a dry run: with a planned count of 0 the history ends with
  ten entries.
\<close>

theorem history_exceeds_planned_count_dry_run:
  "run_count (branch (example_sys 0)) = 0
   \<and> length (runs (branch (final (execute_run (\<lambda>w. w) (example_sys 0))))) = 10
   \<and> \<not> int (length (runs (branch (final (execute_run (\<lambda>w. w) (example_sys 0))))))
         \<le> run_count (branch (example_sys 0))"
  by (simp add: example_run_0 final_def) (simp add: example_sys_def example_branch_def Run_init_def)

text \<open>
  C8, as the code has it. In a trial whose callbacks return, the events are, in this order:
  the start message, the timed trial, the assignment of the history with the new duration
  appended, the call of the estimator, the messages with the duration and with the
  estimate, the cleanup message and, last, the cleanup callback.
\<close>

theorem trial_cycle_order:
  assumes "time pc th (world s) = Inr (d, w)"
    and "time_remaining (branch s) (runs (branch s) @ [d]) (run_count (branch s)) = Inr r"
    and "cleanup_thunk (branch s) w = Inr w'"
  shows "\<exists>s'. trial_cycle pc th s = Inr s'
      \<and> runs (branch s') = runs (branch s) @ [d]
      \<and> trace s' = trace s @
              [Log (MsgRun (name (branch s)) (int (length (runs (branch s))) + 1) (run_count (branch s))),
               Invoke RunThunk,
               AssignRuns (runs (branch s) @ [d]),
               Invoke TimeRemaining,
               Log (MsgCompleted d),
               Log (MsgRemaining (time_string r)),
               Log (MsgCleanup (name (branch s))),
               Invoke CleanupThunk]
      \<and> occurs_before (Invoke TimeRemaining) (Invoke CleanupThunk)
            (drop (length (trace s)) (trace s'))
      \<and> \<not> occurs_before (Invoke CleanupThunk) (Invoke TimeRemaining)
            (drop (length (trace s)) (trace s'))"
  unfolding trial_cycle_ok [OF assms]
  by (simp add: occurs_before_def)

theorem trial_cycle_order_witness:
  "time (\<lambda>w. w) (run_thunk (example_branch 1)) (world (example_sys 1)) = Inr (2, 2)
   \<and> time_remaining (branch (example_sys 1)) (runs (branch (example_sys 1)) @ [2])
        (run_count (branch (example_sys 1))) = Inr 2
   \<and> cleanup_thunk (branch (example_sys 1)) 2 = Inr 2
   \<and> trace (final (trial_cycle (\<lambda>w. w) (run_thunk (example_branch 1)) (example_sys 1))) =
       [Log (MsgRun ''dev'' 1 1), Invoke RunThunk, AssignRuns [2], Invoke TimeRemaining,
        Log (MsgCompleted 2), Log (MsgRemaining ''2 seconds''), Log (MsgCleanup ''dev''),
        Invoke CleanupThunk]"
proof -
  have a: "time (\<lambda>w. w) (run_thunk (example_branch 1)) (world (example_sys 1)) = Inr (2, 2)"
    by (simp add: time_def example_sys_def example_branch_def Run_init_def
        py_round_ndigits_def py_round_def)
  have b: "time_remaining (branch (example_sys 1)) (runs (branch (example_sys 1)) @ [2])
        (run_count (branch (example_sys 1))) = Inr 2"
    by (simp add: example_sys_def example_branch_def Run_init_def time_remaining_dev_def mean_def
        py_round_ndigits_def py_round_def py_int_def)
  have c: "cleanup_thunk (branch (example_sys 1)) 2 = Inr 2"
    by (simp add: example_sys_def example_branch_def Run_init_def)
  have n: "name (branch (example_sys 1)) = ''dev''" "runs (branch (example_sys 1)) = []"
    "run_count (branch (example_sys 1)) = 1" "trace (example_sys 1) = []"
    by (simp_all add: example_sys_def example_branch_def Run_init_def)
  have t: "time_string 2 = ''2 seconds''"
    by (simp add: time_string_def str_int_def str_nat.simps)
  from trial_cycle_order [OF a b c] obtain s' where
    "trial_cycle (\<lambda>w. w) (run_thunk (example_branch 1)) (example_sys 1) = Inr s'"
    "trace s' = trace (example_sys 1) @
              [Log (MsgRun (name (branch (example_sys 1))) (int (length (runs (branch (example_sys 1)))) + 1)
                     (run_count (branch (example_sys 1)))),
               Invoke RunThunk,
               AssignRuns (runs (branch (example_sys 1)) @ [2]),
               Invoke TimeRemaining,
               Log (MsgCompleted 2),
               Log (MsgRemaining (time_string 2)),
               Log (MsgCleanup (name (branch (example_sys 1)))),
               Invoke CleanupThunk]"
    by blast
  then have "trace (final (trial_cycle (\<lambda>w. w) (run_thunk (example_branch 1)) (example_sys 1))) =
       [Log (MsgRun ''dev'' 1 1), Invoke RunThunk, AssignRuns [2], Invoke TimeRemaining,
        Log (MsgCompleted 2), Log (MsgRemaining ''2 seconds''), Log (MsgCleanup ''dev''),
        Invoke CleanupThunk]"
    by (simp add: final_def n t)
  with a b c show ?thesis by blast
qed

text \<open>
  The order the claim states fails on a run of one trial: the estimator is called before
  the cleanup callback, not after it.
\<close>

theorem cleanup_after_estimate:
  "trace (final (execute_run (\<lambda>w. w) (example_sys 1))) =
     [Log (MsgSetup ''dev''), Invoke SetupThunk,
      Log (MsgRun ''dev'' 1 1), Invoke RunThunk, AssignRuns [2], Invoke TimeRemaining,
      Log (MsgCompleted 2), Log (MsgRemaining ''2 seconds''), Log (MsgCleanup ''dev''),
      Invoke CleanupThunk]
   \<and> \<not> occurs_before (Invoke CleanupThunk) (Invoke TimeRemaining)
         (trace (final (execute_run (\<lambda>w. w) (example_sys 1))))
   \<and> occurs_before (Invoke TimeRemaining) (Invoke CleanupThunk)
         (trace (final (execute_run (\<lambda>w. w) (example_sys 1))))"
  by (simp add: example_run_1 final_def occurs_before_def)

subsection \<open>The estimators\<close>

lemma mean_nonempty: "l \<noteq> [] \<Longrightarrow> mean l = Inr (sum_list l / of_nat (length l))"
  by (cases l) (simp_all add: mean_def Let_def)



subsection \<open>The improvement percentage\<close>


lemma get_stat_nonzero:
  assumes "base \<noteq> 0"
  shows "get_stat fmt nm cand base =
          Inr [(nm @ '' dev'', Some (fmt cand), CHR ''.''),
               (nm @ '' base'', Some (fmt base), CHR ''.''),
               (if 0 < py_round_ndigits (100 * ((base - cand) / base)) 2
                then (''IMPROVED BY'', Some (fmt (py_round_ndigits (100 * ((base - cand) / base)) 2) @ '' ''), CHR ''.'')
                else (''DEGRADED BY'', Some (fmt \<bar>py_round_ndigits (100 * ((base - cand) / base)) 2\<bar> @ '' %''), CHR ''.'')),
               ('''', None, CHR '' '')]"
  using assms by (simp add: get_stat_def improvement_def Let_def)




subsection \<open>The layout of the report\<close>

lemma foldl_max_start: "(a::int) \<le> foldl (\<lambda>x y. max x (f y)) a xs"
proof (induction xs arbitrary: a)
  case Nil
  show ?case by simp
next
  case (Cons x xs)
  have "a \<le> max a (f x)" by simp
  also have "\<dots> \<le> foldl (\<lambda>x y. max x (f y)) (max a (f x)) xs" by (rule Cons.IH)
  finally show ?case by simp
qed

lemma foldl_max_member: "y \<in> set xs \<Longrightarrow> f y \<le> foldl (\<lambda>x y. max x (f y)) (a::int) xs"
proof (induction xs arbitrary: a)
  case Nil
  then show ?case by simp
next
  case (Cons x xs)
  show ?case
  proof (cases "y = x")
    case True
    have "f x \<le> max a (f x)" by simp
    also have "\<dots> \<le> foldl (\<lambda>x y. max x (f y)) (max a (f x)) xs" by (rule foldl_max_start)
    finally show ?thesis using True by simp
  next
    case False
    with Cons.prems have "y \<in> set xs" by simp
    then show ?thesis using Cons.IH by simp
  qed
qed

lemma key_width_bound:
  "(k, Some v, c) \<in> set kvs \<Longrightarrow> int (length k) \<le> max_key_width kvs"
  unfolding max_key_width_def
  using foldl_max_member [of "(k, Some v, c)" kvs key_len_of_non_none_values 0]
  by (simp add: key_len_of_non_none_values_def)

lemma value_width_bound:
  "(k, Some v, c) \<in> set kvs \<Longrightarrow> int (length v) \<le> max_value_width kvs"
  unfolding max_value_width_def
  using foldl_max_member [of "(k, Some v, c)" kvs "\<lambda>y. len_none_is_zero (fst (snd y))" 0]
  by (simp add: len_none_is_zero_def)

lemma widths_nonneg: "0 \<le> max_key_width kvs" "0 \<le> max_value_width kvs"
  unfolding max_key_width_def max_value_width_def by (rule foldl_max_start)+

lemma value_line_length:
  assumes "int (length k) + int (length v) \<le> w"
  shows "int (length (pair_to_line w (k, Some v, c))) = w"
  using assms by (simp add: pair_to_line_def Let_def)

lemma blank_line_length:
  assumes "0 \<le> w"
  shows "w \<le> int (length (pair_to_line w (k, None, c)))"
proof -
  define p where "p = \<lceil>real_of_int (w - int (length k)) / 2\<rceil>"
  have "w - int (length k) \<le> 2 * p"
    unfolding p_def using ceil_bounds [of 2 "w - int (length k)"] by simp
  moreover have "int (length (pair_to_line w (k, None, c))) = int (length k) + 2 * int (nat p)"
    by (simp add: pair_to_line_def Let_def p_def)
  ultimately show ?thesis by linarith
qed

lemma line_length_cases:
  assumes "kv \<in> set kvs" and "w = min_separation + max_key_width kvs + max_value_width kvs"
  shows "(fst (snd kv) \<noteq> None \<longrightarrow> int (length (pair_to_line w kv)) = w)
       \<and> w \<le> int (length (pair_to_line w kv))"
proof -
  obtain k v c where kv: "kv = (k, v, c)" by (cases kv)
  have w0: "0 \<le> w" using assms(2) widths_nonneg [of kvs] by (simp add: min_separation_def)
  show ?thesis
  proof (cases v)
    case None
    with kv blank_line_length [OF w0, of k c] show ?thesis by simp
  next
    case (Some val)
    with kv assms(1) have m: "(k, Some val, c) \<in> set kvs" by simp
    have "int (length k) + int (length val) \<le> w"
      using key_width_bound [OF m] value_width_bound [OF m] assms(2)
      by (simp add: min_separation_def)
    from value_line_length [OF this, of c] kv Some show ?thesis by simp
  qed
qed

lemma py_getitem_second_last:
  assumes "xs \<noteq> []"
  shows "py_getitem xs (int (length xs) - 2) = Inr (xs ! (if length xs = 1 then 0 else length xs - 2))"
proof (cases "length xs = 1")
  case True
  then show ?thesis by (simp add: py_getitem_def)
next
  case False
  moreover have "length xs \<noteq> 0" using assms by simp
  ultimately have "2 \<le> length xs" by linarith
  then have "0 \<le> int (length xs) - 2" "int (length xs) - 2 < int (length xs)"
    "nat (int (length xs) - 2) = length xs - 2" by auto
  with False show ?thesis by (simp add: py_getitem_def)
qed

lemma print_results_rows:
  "print_results kvs =
     Inr (map (take (length (rendered_rows kvs ! (if kvs = [] then 0 else length kvs - 1))))
              (rendered_rows kvs))"
proof -
  define ls where "ls = map length (rendered_rows kvs)"
  have ne: "ls \<noteq> []" by (simp add: ls_def rendered_rows_def)
  have len: "length ls = Suc (length kvs)" by (simp add: ls_def rendered_rows_def)
  have "py_getitem ls (int (length ls) - 2) = Inr (ls ! (if length ls = 1 then 0 else length ls - 2))"
    by (rule py_getitem_second_last [OF ne])
  also have "(if length ls = 1 then 0 else length ls - 2) = (if kvs = [] then 0 else length kvs - 1)"
    using len by auto
  also have "ls ! (if kvs = [] then 0 else length kvs - 1)
      = length (rendered_rows kvs ! (if kvs = [] then 0 else length kvs - 1))"
    unfolding ls_def using len by (intro nth_map) (auto simp: ls_def)
  finally have g: "py_getitem ls (int (length ls) - 2)
      = Inr (length (rendered_rows kvs ! (if kvs = [] then 0 else length kvs - 1)))" .
  have "print_results kvs =
      (case py_getitem ls (int (length ls) - 2) of
         Inl e \<Rightarrow> Inl e
       | Inr full_width \<Rightarrow> Inr (map (take full_width) (rendered_rows kvs)))"
    unfolding print_results_def Let_def ls_def rendered_rows_def report_width_def ..
  then show ?thesis by (simp only: g sum.case)
qed

lemma rendered_row_length:
  assumes "i < length (rendered_rows kvs)"
  shows "(fst (snd ((header_line # kvs) ! i)) \<noteq> None \<longrightarrow>
            int (length (rendered_rows kvs ! i)) = report_width kvs)
       \<and> report_width kvs \<le> int (length (rendered_rows kvs ! i))"
proof -
  from assms have i: "i < length (header_line # kvs)" by (simp add: rendered_rows_def)
  then have m: "(header_line # kvs) ! i \<in> set (header_line # kvs)" by (rule nth_mem)
  have r: "rendered_rows kvs ! i = pair_to_line (report_width kvs) ((header_line # kvs) ! i)"
    unfolding rendered_rows_def using i by (rule nth_map)
  from line_length_cases [OF m, of "report_width kvs"] show ?thesis
    by (simp add: r report_width_def)
qed

lemma example_report_short:
  "print_results [(''mean dev'', Some ''5.0'', CHR ''.''), ('''', None, CHR '' '')]
   = Inr [''  Benchmark stats'', ''mean dev......5.0'', ''                 '']"
  by (simp add: print_results_def header_line_def min_separation_def max_key_width_def
      max_value_width_def key_len_of_non_none_values_def len_none_is_zero_def pair_to_line_def
      py_getitem_def Let_def numeral_eq_Suc)

text \<open>
  C7, as the code has it. When the input has at least two lines and its second-to-last
  line carries a value, \<^verbatim>\<open>print_results\<close> returns one row for the header and one for each
  line, each rendered row cut to the length of the second-to-last rendered row, and every
  row has the same length: the report width (6 plus the longest key of a line with a value
  plus the longest value).
\<close>

theorem rows_equal_width:
  assumes "2 \<le> length kvs" and "fst (snd (kvs ! (length kvs - 2))) \<noteq> None"
  shows "\<exists>rows. print_results kvs = Inr rows
       \<and> rows = map (take (length (rendered_rows kvs ! (length (rendered_rows kvs) - 2))))
                    (rendered_rows kvs)
       \<and> length rows = length kvs + 1
       \<and> (\<forall>r \<in> set rows. int (length r) = report_width kvs)"
proof -
  have n: "kvs \<noteq> []" using assms(1) by auto
  have l: "length (rendered_rows kvs) = length kvs + 1" by (simp add: rendered_rows_def)
  have idx: "length (rendered_rows kvs) - 2 = length kvs - 1" using l by simp
  have v: "(header_line # kvs) ! (length kvs - 1) = kvs ! (length kvs - 2)"
  proof -
    have "length kvs - 1 = Suc (length kvs - 2)" using assms(1) by linarith
    then show ?thesis by simp
  qed
  have w: "int (length (rendered_rows kvs ! (length kvs - 1))) = report_width kvs"
    using rendered_row_length [of "length kvs - 1" kvs] assms(2) l v by simp
  have w0: "0 \<le> report_width kvs"
    using widths_nonneg [of "header_line # kvs"] by (simp add: report_width_def min_separation_def)
  have p: "print_results kvs =
     Inr (map (take (length (rendered_rows kvs ! (length kvs - 1)))) (rendered_rows kvs))"
    using print_results_rows [of kvs] n by simp
  have e: "\<forall>r \<in> set (map (take (length (rendered_rows kvs ! (length kvs - 1)))) (rendered_rows kvs)).
             int (length r) = report_width kvs"
  proof
    fix r assume "r \<in> set (map (take (length (rendered_rows kvs ! (length kvs - 1)))) (rendered_rows kvs))"
    then obtain x where x: "x \<in> set (rendered_rows kvs)"
      "r = take (length (rendered_rows kvs ! (length kvs - 1))) x" by auto
    then obtain i where i: "i < length (rendered_rows kvs)" "x = rendered_rows kvs ! i"
      by (auto simp: in_set_conv_nth)
    from rendered_row_length [OF i(1)] i(2) have "report_width kvs \<le> int (length x)" by simp
    with x(2) w w0 show "int (length r) = report_width kvs" by simp
  qed
  from p e l idx show ?thesis by simp
qed

theorem rows_equal_width_witness:
  "2 \<le> length [(''mean dev'', Some ''5.0'', CHR ''.''), ('''', None, CHR '' '')]
   \<and> fst (snd ([(''mean dev'', Some ''5.0'', CHR ''.''), ('''', None, CHR '' '')]
          ! (length [(''mean dev'', Some ''5.0'', CHR ''.''), ('''', None, CHR '' '')] - 2))) \<noteq> None
   \<and> print_results [(''mean dev'', Some ''5.0'', CHR ''.''), ('''', None, CHR '' '')]
       = Inr [''  Benchmark stats'', ''mean dev......5.0'', ''                 '']
   \<and> report_width [(''mean dev'', Some ''5.0'', CHR ''.''), ('''', None, CHR '' '')] = 17"
proof -
  define kvs :: "ReportLine list"
    where "kvs = [(''mean dev'', Some ''5.0'', CHR ''.''), ('''', None, CHR '' '')]"
  have h1: "2 \<le> length kvs" by (simp add: kvs_def)
  have h2: "fst (snd (kvs ! (length kvs - 2))) \<noteq> None" by (simp add: kvs_def)
  have p: "print_results kvs = Inr [''  Benchmark stats'', ''mean dev......5.0'', ''                 '']"
    unfolding kvs_def by (rule example_report_short)
  from rows_equal_width [OF h1 h2] obtain rows where
    r: "print_results kvs = Inr rows" "\<forall>r \<in> set rows. int (length r) = report_width kvs"
    by blast
  from r(1) p have "rows = [''  Benchmark stats'', ''mean dev......5.0'', ''                 '']"
    by simp
  with r(2) have "report_width kvs = 17" by simp
  with h1 h2 p show ?thesis unfolding kvs_def by blast
qed

text \<open>
  The claim as stated fails when the second-to-last rendered row is a header or separator
  row, although the input contains a line with a value: with one line, that row is the
  header, 19 characters long, and the value row has 9; with a value line followed by two
  separators, it is a separator padded to 10 characters, and the value row has 9.
\<close>

theorem rows_unequal_when_second_last_blank:
  "print_results [(''ab'', Some ''b'', CHR ''.'')] = Inr [''  Benchmark stats  '', ''ab......b'']
   \<and> length ''  Benchmark stats  '' \<noteq> length ''ab......b''
   \<and> print_results [(''ab'', Some ''b'', CHR ''.''), ('''', None, CHR '' ''), ('''', None, CHR '' '')]
       = Inr [''  Benchmar'', ''ab......b'', ''          '', ''          '']
   \<and> length ''ab......b'' \<noteq> length ''          ''"
  by (simp add: print_results_def header_line_def min_separation_def max_key_width_def
      max_value_width_def key_len_of_non_none_values_def len_none_is_zero_def pair_to_line_def
      py_getitem_def Let_def numeral_eq_Suc)

subsection \<open>The median\<close>










lemma median_perm:
  assumes "mset h' = mset h"
  shows "median h' = median h"
proof -
  have "sort h' = sort h"
    using assms by (intro properties_for_sort) simp_all
  then show ?thesis by (simp add: median_def)
qed

lemma mean_sort: "mean (sort l) = mean l"
proof -
  have "sum_list (sort l) = sum_list l"
    by (metis mset_sort sum_mset_sum_list)
  then show ?thesis by (simp add: mean_def)
qed

lemma median_sort: "median (sort l) = median l"
  by (rule median_perm) simp

lemma gather_output_store:
  "snd (gather_output fmt args d b st) = st(d := sort (st d), b := sort (st b))"
  by (auto simp: gather_output_def Let_def fun_eq_iff sort_key_id_if_sorted)

lemma gather_output_lines:
  "fst (gather_output fmt args d b st) =
     (case mean (st d) of Inl e \<Rightarrow> Inl e | Inr mean_dev \<Rightarrow>
     (case mean (st b) of Inl e \<Rightarrow> Inl e | Inr mean_base \<Rightarrow>
     (case get_stat fmt ''mean'' (py_round_ndigits mean_dev 2) (py_round_ndigits mean_base 2) of
        Inl e \<Rightarrow> Inl e | Inr mean_lines \<Rightarrow>
     (case median (st d) of Inl e \<Rightarrow> Inl e | Inr median_dev \<Rightarrow>
     (case median (st b) of Inl e \<Rightarrow> Inl e | Inr median_base \<Rightarrow>
     (case get_stat fmt ''median'' (py_round_ndigits median_dev 2) (py_round_ndigits median_base 2) of
        Inl e \<Rightarrow> Inl e | Inr median_lines \<Rightarrow>
      Inr ([(''command'', Some ''dbt parse'', CHR ''.''),
            (''dev branch'', Some (''dbt/'' @ args_dev args), CHR ''.''),
            (''base branch'', Some (''dbt/'' @ args_base args), CHR ''.''),
            ('''', None, CHR '' ''),
            (''time measured in seconds'', None, CHR '' ''),
            ('''', None, CHR '' '')] @ mean_lines @ median_lines)))))))"
proof -
  define h2 where "h2 = (st(d := sort (st d)))(b := sort ((st(d := sort (st d))) b))"
  have d: "h2 d = sort (st d)" by (simp add: h2_def sort_key_id_if_sorted)
  have b: "h2 b = sort (st b)" by (simp add: h2_def sort_key_id_if_sorted)
  have "fst (gather_output fmt args d b st) =
     (case mean (h2 d) of Inl e \<Rightarrow> Inl e | Inr mean_dev \<Rightarrow>
     (case mean (h2 b) of Inl e \<Rightarrow> Inl e | Inr mean_base \<Rightarrow>
     (case get_stat fmt ''mean'' (py_round_ndigits mean_dev 2) (py_round_ndigits mean_base 2) of
        Inl e \<Rightarrow> Inl e | Inr mean_lines \<Rightarrow>
     (case median (h2 d) of Inl e \<Rightarrow> Inl e | Inr median_dev \<Rightarrow>
     (case median (h2 b) of Inl e \<Rightarrow> Inl e | Inr median_base \<Rightarrow>
     (case get_stat fmt ''median'' (py_round_ndigits median_dev 2) (py_round_ndigits median_base 2) of
        Inl e \<Rightarrow> Inl e | Inr median_lines \<Rightarrow>
      Inr ([(''command'', Some ''dbt parse'', CHR ''.''),
            (''dev branch'', Some (''dbt/'' @ args_dev args), CHR ''.''),
            (''base branch'', Some (''dbt/'' @ args_base args), CHR ''.''),
            ('''', None, CHR '' ''),
            (''time measured in seconds'', None, CHR '' ''),
            ('''', None, CHR '' '')] @ mean_lines @ median_lines)))))))"
    unfolding gather_output_def Let_def h2_def fst_conv ..
  then show ?thesis by (simp only: d b mean_sort median_sort)
qed

lemma gather_output_ok:
  assumes "median (st d) = Inr md" and "median (st b) = Inr mb"
    and "py_round_ndigits (sum_list (st b) / of_nat (length (st b))) 2 \<noteq> 0"
    and "py_round_ndigits mb 2 \<noteq> 0"
  shows "\<exists>lines. fst (gather_output fmt args d b st) = Inr lines \<and> length lines = 14
      \<and> lines ! 10 = (''median dev'', Some (fmt (py_round_ndigits md 2)), CHR ''.'')
      \<and> lines ! 11 = (''median base'', Some (fmt (py_round_ndigits mb 2)), CHR ''.'')"
proof -
  have nd: "st d \<noteq> []" using assms(1) by (auto simp: median_def)
  have nb: "st b \<noteq> []" using assms(2) by (auto simp: median_def)
  show ?thesis
    unfolding gather_output_lines
    using assms
    by (simp add: mean_nonempty [OF nd] mean_nonempty [OF nb] get_stat_nonzero)
qed




subsection \<open>The histories and the report\<close>

lemma main_report_eq:
  "main_report fmt args dev base =
     (case fst (gather_output fmt args 0 1 ((\<lambda>a. [])(0 := runs dev, 1 := runs base))) of
        Inl e \<Rightarrow> Inl e
      | Inr kvs \<Rightarrow>
         (case print_results kvs of
            Inl e \<Rightarrow> Inl e
          | Inr rows \<Rightarrow> Inr (rows, sort (runs dev), sort (runs base))))"
proof -
  define st :: store where "st = (\<lambda>a. [])(0 := runs dev, 1 := runs base)"
  obtain r h where g: "gather_output fmt args 0 1 st = (r, h)"
    by (cases "gather_output fmt args 0 1 st")
  have "h = snd (gather_output fmt args 0 1 st)" using g by simp
  then have h: "h = st(0 := sort (st 0), 1 := sort (st 1))" by (simp only: gather_output_store)
  have h0: "h 0 = sort (runs dev)" and h1: "h 1 = sort (runs base)"
    by (simp_all add: h st_def)
  have "main_report fmt args dev base =
      (case gather_output fmt args 0 1 st of
           (Inl e, h) \<Rightarrow> Inl e
         | (Inr kvs, h) \<Rightarrow>
            (case print_results kvs of
               Inl e \<Rightarrow> Inl e
             | Inr rows \<Rightarrow> Inr (rows, h 0, h 1)))"
    unfolding main_report_def Let_def st_def ..
  also have "\<dots> = (case r of
        Inl e \<Rightarrow> Inl e
      | Inr kvs \<Rightarrow>
         (case print_results kvs of
            Inl e \<Rightarrow> Inl e
          | Inr rows \<Rightarrow> Inr (rows, sort (runs dev), sort (runs base))))"
    unfolding g by (cases r) (simp_all only: prod.case sum.case h0 h1)
  also have "r = fst (gather_output fmt args 0 1 st)" using g by simp
  finally show ?thesis unfolding st_def .
qed

lemma execute_run_prefix:
  assumes "1 \<le> run_count (branch s)"
  shows "prefix (runs (branch s)) (runs (branch (final (execute_run pc s))))"
proof -
  from execute_run_inv [OF assms, of pc] obtain ds where
    "branch (final (execute_run pc s)) = (branch s)\<lparr>runs := runs (branch s) @ ds\<rparr>"
    by blast
  then show ?thesis by simp
qed

lemma example_store:
  "snd (gather_output (\<lambda>x. []) \<lparr>cached = True, args_runs = 2, args_dev = ''feature'', args_base = ''develop''\<rparr>
         0 1 ((\<lambda>a. [])(0 := [3, 1], 1 := [2, 2]))) 0 = [1, 3]"
  by (simp add: gather_output_store)

text \<open>
  C1, as the code has it. \<^verbatim>\<open>gather_output\<close> sorts both histories in place: the lists it
  was given are left in ascending order, and they are what \<^verbatim>\<open>main\<close> prints afterwards as
  the raw runs. A real run of a branch (planned count at least 1) does not reorder the
  history: the history it ends with extends the one it started with.
\<close>

theorem report_sorts_in_place:
  "snd (gather_output fmt args d b st) = st(d := sort (st d), b := sort (st b))
   \<and> main_report fmt args dev base =
       (case fst (gather_output fmt args 0 1 ((\<lambda>a. [])(0 := runs dev, 1 := runs base))) of
          Inl e \<Rightarrow> Inl e
        | Inr kvs \<Rightarrow>
           (case print_results kvs of
              Inl e \<Rightarrow> Inl e
            | Inr rows \<Rightarrow> Inr (rows, sort (runs dev), sort (runs base))))
   \<and> (1 \<le> run_count (branch s) \<longrightarrow>
        prefix (runs (branch s)) (runs (branch (final (execute_run pc s)))))"
  using gather_output_store [of fmt args d b st] main_report_eq [of fmt args dev base]
    execute_run_prefix [of s pc]
  by blast

theorem report_sorts_in_place_witness:
  "1 \<le> run_count (branch (example_sys 2))
   \<and> prefix (runs (branch (example_sys 2))) (runs (branch (final (execute_run (\<lambda>w. w) (example_sys 2)))))
   \<and> snd (gather_output (\<lambda>x. []) \<lparr>cached = True, args_runs = 2, args_dev = ''feature'', args_base = ''develop''\<rparr>
         0 1 ((\<lambda>a. [])(0 := [3, 1], 1 := [2, 2]))) 0 = [1, 3]"
proof -
  have h: "1 \<le> run_count (branch (example_sys 2))"
    by (simp add: example_sys_def example_branch_def Run_init_def)
  note t = report_sorts_in_place [of "\<lambda>x. []" "\<lparr>cached = True, args_runs = 2, args_dev = ''feature'', args_base = ''develop''\<rparr>"
      0 1 "(\<lambda>a. [])(0 := [3, 1], 1 := [2, 2])" "example_branch 2" "example_branch 2" "example_sys 2" "\<lambda>w. w"]
  have 3: "snd (gather_output (\<lambda>x. []) \<lparr>cached = True, args_runs = 2, args_dev = ''feature'', args_base = ''develop''\<rparr>
         0 1 ((\<lambda>a. [])(0 := [3, 1], 1 := [2, 2]))) 0 = [1, 3]"
    unfolding t [THEN conjunct1] by simp
  have 2: "prefix (runs (branch (example_sys 2))) (runs (branch (final (execute_run (\<lambda>w. w) (example_sys 2)))))"
    using t [THEN conjunct2, THEN conjunct2] h by (rule mp)
  from h 2 3 show ?thesis by (intro conjI)
qed

text \<open>
  The claim as stated fails: after the report of the histories \<open>[3, 1]\<close> and \<open>[2, 2]\<close>
  the dev history is \<open>[1, 3]\<close>, and that is what is printed as the raw dev runs.
\<close>

theorem report_reorders_history:
  "snd (gather_output (\<lambda>x. []) \<lparr>cached = True, args_runs = 2, args_dev = ''feature'', args_base = ''develop''\<rparr>
         0 1 ((\<lambda>a. [])(0 := [3, 1], 1 := [2, 2]))) 0 = [1, 3]
   \<and> [1, 3] \<noteq> [3, 1 :: real]
   \<and> map_sum id snd
        (main_report (\<lambda>x. []) \<lparr>cached = True, args_runs = 2, args_dev = ''feature'', args_base = ''develop''\<rparr>
           ((example_branch 2)\<lparr>runs := [3, 1]\<rparr>) ((example_branch 2)\<lparr>runs := [2, 2]\<rparr>))
       = Inr ([1, 3], [2, 2])"
proof -
  define st :: store where "st = (\<lambda>a. [])(0 := [3, 1], 1 := [2, 2])"
  define args where
    "args = \<lparr>cached = True, args_runs = 2, args_dev = ''feature'', args_base = ''develop''\<rparr>"
  have md: "median (st 0) = Inr 2" by (simp add: st_def median_def Let_def)
  have mb: "median (st 1) = Inr 2" by (simp add: st_def median_def Let_def)
  have r1: "py_round_ndigits (sum_list (st 1) / of_nat (length (st 1))) 2 \<noteq> 0"
    by (simp add: st_def py_round_ndigits_def py_round_def)
  have r2: "py_round_ndigits 2 2 \<noteq> 0"
    by (simp add: py_round_ndigits_def py_round_def)
  have "\<exists>lines. fst (gather_output (\<lambda>x. []) args 0 1 st) = Inr lines \<and> length lines = 14
      \<and> lines ! 10 = (''median dev'', Some ((\<lambda>x. []) (py_round_ndigits 2 2)), CHR ''.'')
      \<and> lines ! 11 = (''median base'', Some ((\<lambda>x. []) (py_round_ndigits 2 2)), CHR ''.'')"
    using md mb r1 r2 by (rule gather_output_ok [of st 0 2 1 2 "\<lambda>x. []" args])
  then obtain lines where l: "fst (gather_output (\<lambda>x. []) args 0 1 st) = Inr lines"
    by (elim exE conjE)
  obtain rows where rows: "print_results lines = Inr rows"
    using print_results_rows [of lines] by (rule that)
  have rd: "runs ((example_branch 2)\<lparr>runs := [3, 1]\<rparr>) = [3, 1]"
    and rb: "runs ((example_branch 2)\<lparr>runs := [2, 2]\<rparr>) = [2, 2]"
    by simp_all
  have "main_report (\<lambda>x. []) args
           ((example_branch 2)\<lparr>runs := [3, 1]\<rparr>) ((example_branch 2)\<lparr>runs := [2, 2]\<rparr>)
       = Inr (rows, sort [3, 1], sort [2, 2])"
    unfolding main_report_eq rd rb st_def [symmetric] l
    by (simp only: sum.case rows)
  then have m: "map_sum id snd
        (main_report (\<lambda>x. []) args
           ((example_branch 2)\<lparr>runs := [3, 1]\<rparr>) ((example_branch 2)\<lparr>runs := [2, 2]\<rparr>))
       = Inr ([1, 3], [2, 2])"
    by simp
  have n: "[1, 3] \<noteq> [3, 1 :: real]" by simp
  from example_store n m show ?thesis unfolding args_def by (intro conjI)
qed

end
